theory Spec2Isabelle
  imports Main
begin

section \<open>Strings and regular expressions of the two scripts\<close>

text \<open>
  A Python \<open>str\<close> is modelled as a \<open>string\<close> whose characters are the code points
  below 256. In that range the class \<open>\d\<close> of Python's \<open>re\<close> is the ten ASCII digits,
  and \<open>\s\<close> and the separators of \<open>str.split()\<close> are the same set: tab to carriage
  return, the four separators 28..31, space, 133 and 160.
\<close>

definition is_digit :: "char \<Rightarrow> bool" where
  "is_digit c = (let n = of_char c :: nat in 48 \<le> n \<and> n \<le> 57)"

definition is_space :: "char \<Rightarrow> bool" where
  "is_space c = (let n = of_char c :: nat in
     (9 \<le> n \<and> n \<le> 13) \<or> (28 \<le> n \<and> n \<le> 32) \<or> n = 133 \<or> n = 160)"

definition all_digits :: "string \<Rightarrow> bool" where
  "all_digits s = list_all is_digit s"

text \<open>\<open>str.startswith\<close>.\<close>

definition startswith :: "string \<Rightarrow> string \<Rightarrow> bool" where
  "startswith s p = (take (length p) s = p)"

text \<open>
  The end anchor \<open>$\<close> of a pattern compiled without flags matches at the end of the
  string and also just before a newline that ends the string.
\<close>

definition at_end :: "string \<Rightarrow> bool" where
  "at_end s = (s = [] \<or> s = [CHR 0x0A])"

text \<open>Exactly \<open>n\<close> digits at the front of \<open>s\<close>: the rest after them, if they are there.\<close>

definition digits_exact :: "nat \<Rightarrow> string \<Rightarrow> string option" where
  "digits_exact n s =
     (if length (take n s) = n \<and> all_digits (take n s) then Some (drop n s) else None)"

text \<open>One literal character at the front of \<open>s\<close>.\<close>

definition lit :: "char \<Rightarrow> string \<Rightarrow> string option" where
  "lit c s = (case s of [] \<Rightarrow> None | d # r \<Rightarrow> if d = c then Some r else None)"

section \<open>fix_csv.py\<close>

definition EXPECTED_HEADER :: "string list" where
  "EXPECTED_HEADER =
     [''STATUS'', ''END TO END ID'', ''MERCHANT'', ''AMOUNT'', ''DUE DATE'',
      ''CUSTOMER BIC'', ''CUSTOMER IBAN'', ''CUSTOMER NAME'', ''CUSTOMER ID'',
      ''ADDITIONAL INFO 1'', ''ADDITIONAL INFO 2'', ''IMPORTED DATE'',
      ''MANDATE REFERENCE'', ''TRANSACTION INFORMATION'', ''TRANSACTION TYPE NAME'',
      ''ERROR CODE'', ''ERROR REASON'', ''MERCHANT PRODUCT NAME'', ''HAS CHARGEBACK'']"

text \<open>
  \<open>MANDATE_LIKE_RE.match(v)\<close> for the pattern \<open>^\d{6,}-\d{4}-\d{2}-\d{2}$\<close>. The greedy
  run \<open>\d{6,}\<close> is followed by a dash, which is no digit, so the run is the longest one.
\<close>

definition MANDATE_LIKE_RE :: "string \<Rightarrow> bool" where
  "MANDATE_LIKE_RE v =
     (let ds = takeWhile is_digit v; r0 = dropWhile is_digit v in
      6 \<le> length ds \<and>
      (case lit CHR ''-'' r0 of None \<Rightarrow> False | Some r1 \<Rightarrow>
       case digits_exact 4 r1 of None \<Rightarrow> False | Some r2 \<Rightarrow>
       case lit CHR ''-'' r2 of None \<Rightarrow> False | Some r3 \<Rightarrow>
       case digits_exact 2 r3 of None \<Rightarrow> False | Some r4 \<Rightarrow>
       case lit CHR ''-'' r4 of None \<Rightarrow> False | Some r5 \<Rightarrow>
       case digits_exact 2 r5 of None \<Rightarrow> False | Some r6 \<Rightarrow> at_end r6))"

text \<open>The loop \<open>for i in range(min(9, len(fields))): fixed[i] = fields[i]\<close>.\<close>

definition copy_prefix :: "string list \<Rightarrow> string list \<Rightarrow> string list" where
  "copy_prefix fields fixed =
     fold (\<lambda>i f. f[i := fields ! i]) [0 ..< min 9 (length fields)] fixed"

text \<open>\<open>next((i for i, v in enumerate(fields) if MANDATE_LIKE_RE.match(v)), None)\<close>.\<close>

definition id_date_idx :: "string list \<Rightarrow> nat option" where
  "id_date_idx fields =
     map_option fst (find (\<lambda>(i, v). MANDATE_LIKE_RE v) (enumerate 0 fields))"

text \<open>\<open>tail = [i for i, v in enumerate(fields) if v]\<close>.\<close>

definition tail_idx :: "string list \<Rightarrow> nat list" where
  "tail_idx fields = map fst (filter (\<lambda>(i, v). v \<noteq> []) (enumerate 0 fields))"

text \<open>
  Every index the function reads or writes is in range: \<open>i < min 9 (len fields)\<close> in the
  loop, 13, 15 and 16 in a list of 19, and the indices of \<open>tail\<close>, which are positions
  of \<open>fields\<close>; \<open>tail[-1]\<close> and \<open>tail[-2]\<close> are read only when \<open>tail\<close> is long enough.
  So the function raises nowhere and its model returns a plain list.
\<close>

definition normalize_row :: "string list \<Rightarrow> string list" where
  "normalize_row fields =
     (if length fields = length EXPECTED_HEADER then fields
      else
        let fixed0 = replicate (length EXPECTED_HEADER) [];
            fixed1 = copy_prefix fields fixed0;
            fixed2 = (case id_date_idx fields of
                        None \<Rightarrow> fixed1
                      | Some k \<Rightarrow> fixed1[13 := fields ! k]);
            tail = tail_idx fields;
            n = length tail
        in if tail \<noteq> [] then
             (if 2 \<le> n then (fixed2[15 := fields ! (tail ! (n - 2))])[16 := fields ! (tail ! (n - 1))]
              else fixed2[15 := fields ! (tail ! (n - 1))])
           else fixed2)"

section \<open>pdf2csv.py\<close>

text \<open>
  \<open>ParserError\<close> is the exception of \<open>dateutil.parser.parse\<close> (a \<open>ValueError\<close>).
  \<open>Unmodelled\<close> is no Python exception: it marks the arguments of the date parser that
  its model below does not cover. \<open>parse_records_from_lines\<close> never produces it
  (lemma \<open>parse_records_from_lines_modelled\<close>).
\<close>

datatype error = ParserError | Unmodelled

type_synonym csv_record = "(string \<times> string) list"

definition DEFAULT_MERCHANT :: string where
  "DEFAULT_MERCHANT = ''PPS Perfunctio Payment Services GmbH''"

definition ERROR_REASON_MAP :: "(string \<times> string) list" where
  "ERROR_REASON_MAP = [(''KC2-BL001'', ''User in the Blacklist'')]"

definition PRODUCT_AMOUNT_BY_TWO_DIGIT :: "(string \<times> string) list" where
  "PRODUCT_AMOUNT_BY_TWO_DIGIT = [(''35'', ''39.90''), (''15'', ''54.90''), (''25'', ''54.90'')]"

definition PRODUCT_AMOUNT_BY_PREFIX :: "(string \<times> string) list" where
  "PRODUCT_AMOUNT_BY_PREFIX =
     [(''PPS_DB_VPLUS1new'', ''54.90''), (''PPS_DB_VPLUS2new'', ''39.90''),
      (''PPS_DB_VPLUS3'', ''39.90'')]"

text \<open>\<open>dict.get(key, "")\<close> on a table of strings.\<close>

definition get_or_empty :: "(string \<times> string) list \<Rightarrow> string \<Rightarrow> string" where
  "get_or_empty d k = (case map_of d k of None \<Rightarrow> [] | Some v \<Rightarrow> v)"

text \<open>
  \<open>str.split()\<close> without arguments: the maximal runs of characters that are not white
  space, in order. \<open>cur\<close> is the run being read.
\<close>

fun split_acc :: "string \<Rightarrow> string \<Rightarrow> string list" where
  "split_acc cur [] = (if cur = [] then [] else [cur])"
| "split_acc cur (c # cs) =
     (if is_space c then (if cur = [] then split_acc [] cs else cur # split_acc [] cs)
      else split_acc (cur @ [c]) cs)"

definition split :: "string \<Rightarrow> string list" where
  "split s = split_acc [] s"

text \<open>\<open>sep.join(xs)\<close>.\<close>

fun join :: "string \<Rightarrow> string list \<Rightarrow> string" where
  "join sep [] = []"
| "join sep [x] = x"
| "join sep (x # y # ys) = x @ sep @ join sep (y # ys)"

text \<open>A literal string at the front of \<open>s\<close>, and the greedy \<open>\s+\<close> before a letter.\<close>

definition lits :: "string \<Rightarrow> string \<Rightarrow> string option" where
  "lits p s = (if startswith s p then Some (drop (length p) s) else None)"

definition spaces1 :: "string \<Rightarrow> string option" where
  "spaces1 s = (if takeWhile is_space s = [] then None else Some (dropWhile is_space s))"

text \<open>\<open>header_regex.match(s)\<close> for \<open>^Dateiname\s+Name\s+Kundennummer\s+Fehler$\<close>.\<close>

definition header_regex :: "string \<Rightarrow> bool" where
  "header_regex s =
     (case lits ''Dateiname'' s of None \<Rightarrow> False | Some r1 \<Rightarrow>
      case spaces1 r1 of None \<Rightarrow> False | Some r2 \<Rightarrow>
      case lits ''Name'' r2 of None \<Rightarrow> False | Some r3 \<Rightarrow>
      case spaces1 r3 of None \<Rightarrow> False | Some r4 \<Rightarrow>
      case lits ''Kundennummer'' r4 of None \<Rightarrow> False | Some r5 \<Rightarrow>
      case spaces1 r5 of None \<Rightarrow> False | Some r6 \<Rightarrow>
      case lits ''Fehler'' r6 of None \<Rightarrow> False | Some r7 \<Rightarrow> at_end r7)"

text \<open>
  \<open>re.search(r"(20\d{6})", filename)\<close>: the leftmost place where the pattern matches;
  \<open>date_here s\<close> says that it matches at the front of \<open>s\<close>.
\<close>

definition date_here :: "string \<Rightarrow> bool" where
  "date_here s = (startswith s ''20'' \<and> digits_exact 6 (drop 2 s) \<noteq> None)"

fun find_date_yyyymmdd_in_filename :: "string \<Rightarrow> string" where
  "find_date_yyyymmdd_in_filename [] = []"
| "find_date_yyyymmdd_in_filename (c # cs) =
     (if date_here (c # cs) then take 8 (c # cs) else find_date_yyyymmdd_in_filename cs)"

text \<open>\<open>int(s)\<close> on a string of decimal digits.\<close>

definition int_of_digits :: "string \<Rightarrow> nat" where
  "int_of_digits s = foldl (\<lambda>a c. 10 * a + (of_char c - 48)) 0 s"

definition is_leap :: "nat \<Rightarrow> bool" where
  "is_leap y = (y mod 4 = 0 \<and> (if y mod 100 = 0 then y mod 400 = 0 else True))"

definition days_in_month :: "nat \<Rightarrow> nat \<Rightarrow> nat" where
  "days_in_month y m =
     (if m = 2 then (if is_leap y then 29 else 28)
      else if m = 4 \<or> m = 6 \<or> m = 9 \<or> m = 11 then 30 else 31)"

text \<open>
  \<open>dateutil.parser.parse\<close> is a library outside the repository. On a token of eight
  decimal digits it reads \<open>YYYYMMDD\<close> (the year from the first four characters, the
  month from the next two, the day from the last two) and builds a \<open>datetime\<close> from
  them; \<open>datetime\<close> rejects a year outside 1..9999, a month outside 1..12 and a day
  outside the month, and the parser raises \<open>ParserError\<close> then. The result is the
  triple year, month, day. No other argument is modelled.
\<close>

definition dateparser_parse :: "string \<Rightarrow> error + (nat \<times> nat \<times> nat)" where
  "dateparser_parse s =
     (if length s = 8 \<and> all_digits s then
        (let y = int_of_digits (take 4 s);
             m = int_of_digits (take 2 (drop 4 s));
             d = int_of_digits (take 2 (drop 6 s))
         in if 1 \<le> y \<and> y \<le> 9999 \<and> 1 \<le> m \<and> m \<le> 12 \<and> 1 \<le> d \<and> d \<le> days_in_month y m
            then Inr (y, m, d) else Inl ParserError)
      else Inl Unmodelled)"

text \<open>\<open>str(n)\<close> for a natural number, and the format specifications \<open>04d\<close>, \<open>02d\<close>.\<close>

fun str_nat :: "nat \<Rightarrow> string" where
  "str_nat n =
     (if n < 10 then [char_of (48 + n)] else str_nat (n div 10) @ [char_of (48 + n mod 10)])"

declare str_nat.simps [simp del]

definition fmt_0d :: "nat \<Rightarrow> nat \<Rightarrow> string" where
  "fmt_0d w n = replicate (w - length (str_nat n)) CHR ''0'' @ str_nat n"

definition yyyymmdd_to_first_of_month :: "string \<Rightarrow> error + string" where
  "yyyymmdd_to_first_of_month yyyymmdd =
     (if yyyymmdd = [] then Inr []
      else case dateparser_parse yyyymmdd of
             Inl e \<Rightarrow> Inl e
           | Inr (year, month, day) \<Rightarrow> Inr (fmt_0d 4 year @ ''-'' @ fmt_0d 2 month @ ''-01''))"

text \<open>The loop over \<open>PRODUCT_AMOUNT_BY_PREFIX.items()\<close>, in the order of the table.\<close>

fun first_prefix :: "(string \<times> string) list \<Rightarrow> string \<Rightarrow> string option" where
  "first_prefix [] filename = None"
| "first_prefix ((prefix, amount) # rest) filename =
     (if startswith filename prefix then Some amount else first_prefix rest filename)"

text \<open>\<open>re.search(r"(\d{2})new", filename)\<close>: group 1 of the leftmost match.\<close>

definition two_new_here :: "string \<Rightarrow> bool" where
  "two_new_here s =
     (case digits_exact 2 s of None \<Rightarrow> False | Some r \<Rightarrow> startswith r ''new'')"

fun search_two_new :: "string \<Rightarrow> string option" where
  "search_two_new [] = None"
| "search_two_new (c # cs) =
     (if two_new_here (c # cs) then Some (take 2 (c # cs)) else search_two_new cs)"

definition detect_amount_from_filename :: "string \<Rightarrow> string" where
  "detect_amount_from_filename filename =
     (case first_prefix PRODUCT_AMOUNT_BY_PREFIX filename of
        Some amount \<Rightarrow> amount
      | None \<Rightarrow>
         (case search_two_new filename of
            None \<Rightarrow> []
          | Some two \<Rightarrow>
             (case map_of PRODUCT_AMOUNT_BY_TWO_DIGIT two of
                Some amount \<Rightarrow> amount
              | None \<Rightarrow> [])))"

text \<open>
  The body of the loop of \<open>parse_records_from_lines\<close> for one line: \<open>Inr None\<close> is
  \<open>continue\<close>, \<open>Inr (Some record)\<close> the appended record, \<open>Inl e\<close> an exception, which
  leaves the function. \<open>parts[0]\<close>, \<open>parts[-1]\<close> and \<open>parts[-2]\<close> are read only when
  \<open>parts\<close> has at least four elements.
\<close>

definition parse_line :: "string \<Rightarrow> error + csv_record option" where
  "parse_line line =
     (let parts = split line; n = length parts in
      if n < 4 then Inr None
      else
        let filename_token = parts ! 0;
            error_code = parts ! (n - 1);
            customer_id = parts ! (n - 2);
            customer_name = join '' '' (drop 1 (take (n - 2) parts))
        in if \<not> (customer_id \<noteq> [] \<and> all_digits customer_id) then Inr None
           else
             (case yyyymmdd_to_first_of_month (find_date_yyyymmdd_in_filename filename_token) of
                Inl e \<Rightarrow> Inl e
              | Inr mandate_date \<Rightarrow>
                 (let id_date_value =
                        (if mandate_date \<noteq> [] then customer_id @ ''-'' @ mandate_date
                         else customer_id)
                  in Inr (Some
                    [(''STATUS'', ''REJECTED''),
                     (''END TO END ID'', []),
                     (''MERCHANT'', DEFAULT_MERCHANT),
                     (''AMOUNT'', detect_amount_from_filename filename_token),
                     (''DUE DATE'', []),
                     (''CUSTOMER BIC'', []),
                     (''CUSTOMER IBAN'', []),
                     (''CUSTOMER NAME'', customer_name),
                     (''CUSTOMER ID'', customer_id),
                     (''ADDITIONAL INFO 1'', []),
                     (''ADDITIONAL INFO 2'', []),
                     (''IMPORTED DATE'', []),
                     (''MANDATE REFERENCE'', []),
                     (''TRANSACTION INFORMATION'', id_date_value),
                     (''TRANSACTION TYPE NAME'', []),
                     (''ERROR CODE'', error_code),
                     (''ERROR REASON'', get_or_empty ERROR_REASON_MAP error_code),
                     (''MERCHANT PRODUCT NAME'', []),
                     (''HAS CHARGEBACK'', [])]))))"

fun parse_loop :: "string list \<Rightarrow> csv_record list \<Rightarrow> error + csv_record list" where
  "parse_loop [] records = Inr records"
| "parse_loop (line # rest) records =
     (case parse_line line of
        Inl e \<Rightarrow> Inl e
      | Inr None \<Rightarrow> parse_loop rest records
      | Inr (Some record) \<Rightarrow> parse_loop rest (records @ [record]))"

definition parse_records_from_lines :: "string list \<Rightarrow> error + csv_record list" where
  "parse_records_from_lines lines =
     (if lines = [] then Inr []
      else
        let start_index = (if header_regex (lines ! 0) then 1 else 0)
        in parse_loop (drop start_index lines) [])"

section \<open>Row normalisation: shape\<close>

lemma length_EXPECTED_HEADER: "length EXPECTED_HEADER = 19"
  by (simp add: EXPECTED_HEADER_def)

lemma length_fold_upd:
  "length (fold (\<lambda>i f. f[i := g i]) is fixed) = length fixed"
  by (induction "is" arbitrary: fixed) simp_all

lemma length_copy_prefix: "length (copy_prefix fields fixed) = length fixed"
  by (simp add: copy_prefix_def length_fold_upd)

text \<open>
  C1. For every list of fields, of any length, \<open>normalize_row\<close> returns a list of
  exactly 19 strings.
\<close>

theorem normalize_row_length: "length (normalize_row fields) = 19"
  by (simp add: normalize_row_def Let_def length_EXPECTED_HEADER length_copy_prefix
      split: option.split)

theorem normalize_row_length_witness:
  "length (normalize_row []) = 19 \<and> length (normalize_row (replicate 25 ''x'')) = 19"
  using normalize_row_length [of "[]"] normalize_row_length [of "replicate 25 ''x''"]
  by simp

text \<open>
  C2. A row of exactly 19 fields is returned unchanged: on rows of 19 fields
  \<open>normalize_row\<close> is the identity.
\<close>

theorem normalize_row_identity: "length fields = 19 \<Longrightarrow> normalize_row fields = fields"
  by (simp add: normalize_row_def length_EXPECTED_HEADER)

theorem normalize_row_identity_witness:
  "length (replicate 19 ''ab'') = 19 \<and> normalize_row (replicate 19 ''ab'') = replicate 19 ''ab''"
  using normalize_row_identity [of "replicate 19 ''ab''"] by simp

section \<open>Row normalisation: the slots\<close>

lemma nth_fold_upd:
  "j < length fixed \<Longrightarrow>
   fold (\<lambda>i f. f[i := g i]) [0 ..< n] fixed ! j = (if j < n then g j else fixed ! j)"
proof (induction n)
  case 0
  then show ?case by simp
next
  case (Suc n)
  then show ?case
    by (cases "j = n") (simp_all add: length_fold_upd)
qed

lemma nth_copy_prefix:
  "j < length fixed \<Longrightarrow>
   copy_prefix fields fixed ! j = (if j < min 9 (length fields) then fields ! j else fixed ! j)"
  unfolding copy_prefix_def by (rule nth_fold_upd)

lemma find_enumerate_snd:
  "map_option snd (find (\<lambda>(i, v). P v) (enumerate n xs)) = find P xs"
  by (induction xs arbitrary: n) simp_all

lemma find_enumerate_nth:
  assumes "find (\<lambda>(i, v). P v) (enumerate 0 xs) = Some (k, v)"
  shows "k < length xs \<and> xs ! k = v"
proof -
  from assms have "(k, v) \<in> set (enumerate 0 xs)"
    by (auto simp: find_Some_iff in_set_conv_nth)
  then show ?thesis by (simp add: in_set_enumerate_eq)
qed

lemma id_date_idx_None: "id_date_idx fields = None \<longleftrightarrow> find MANDATE_LIKE_RE fields = None"
  using find_enumerate_snd [of MANDATE_LIKE_RE 0 fields]
  by (auto simp: id_date_idx_def)

lemma id_date_idx_Some:
  assumes "id_date_idx fields = Some k"
  shows "k < length fields \<and> find MANDATE_LIKE_RE fields = Some (fields ! k)"
proof -
  from assms obtain v where f: "find (\<lambda>(i, v). MANDATE_LIKE_RE v) (enumerate 0 fields) = Some (k, v)"
    by (auto simp: id_date_idx_def)
  then have kv: "k < length fields \<and> fields ! k = v" by (rule find_enumerate_nth)
  from f find_enumerate_snd [of MANDATE_LIKE_RE 0 fields]
  have "find MANDATE_LIKE_RE fields = Some v" by simp
  with kv show ?thesis by simp
qed

lemma tail_idx_values_gen:
  "map (\<lambda>i. xs ! (i - n)) (map fst (filter (\<lambda>(i, v). v \<noteq> []) (enumerate n xs)))
     = filter (\<lambda>v. v \<noteq> []) xs"
proof -
  have "map (\<lambda>i. xs ! (i - n)) (map fst (filter (\<lambda>(i, v). v \<noteq> []) (enumerate n xs)))
        = map snd (filter (\<lambda>(i, v). v \<noteq> []) (enumerate n xs))"
    by (auto simp: in_set_enumerate_eq)
  also have "\<dots> = filter (\<lambda>v. v \<noteq> []) xs"
    by (induction xs arbitrary: n) simp_all
  finally show ?thesis .
qed

lemma tail_idx_values:
  "map (\<lambda>i. fields ! i) (tail_idx fields) = filter (\<lambda>v. v \<noteq> []) fields"
  using tail_idx_values_gen [of fields 0] by (simp add: tail_idx_def)

lemma tail_idx_length:
  "length (tail_idx fields) = length (filter (\<lambda>v. v \<noteq> []) fields)"
  using arg_cong [OF tail_idx_values, of length] by simp

lemma tail_idx_nth:
  "m < length (tail_idx fields) \<Longrightarrow>
   fields ! (tail_idx fields ! m) = filter (\<lambda>v. v \<noteq> []) fields ! m"
  using arg_cong [OF tail_idx_values, of "\<lambda>l. l ! m" fields] by simp

lemma normalize_row_other:
  "length fields \<noteq> 19 \<Longrightarrow> j < 19 \<Longrightarrow> j \<noteq> 13 \<Longrightarrow> j \<noteq> 15 \<Longrightarrow> j \<noteq> 16 \<Longrightarrow>
   normalize_row fields ! j = (if j < min 9 (length fields) then fields ! j else [])"
  by (simp add: normalize_row_def Let_def length_EXPECTED_HEADER length_copy_prefix
      nth_copy_prefix split: option.split)

lemma normalize_row_13:
  "length fields \<noteq> 19 \<Longrightarrow>
   normalize_row fields ! 13 = (case id_date_idx fields of None \<Rightarrow> [] | Some k \<Rightarrow> fields ! k)"
  by (simp add: normalize_row_def Let_def length_EXPECTED_HEADER length_copy_prefix
      nth_copy_prefix split: option.split)

lemma normalize_row_15:
  "length fields \<noteq> 19 \<Longrightarrow>
   normalize_row fields ! 15 =
     (if tail_idx fields = [] then []
      else if 2 \<le> length (tail_idx fields)
           then fields ! (tail_idx fields ! (length (tail_idx fields) - 2))
           else fields ! (tail_idx fields ! (length (tail_idx fields) - 1)))"
  by (simp add: normalize_row_def Let_def length_EXPECTED_HEADER length_copy_prefix
      nth_copy_prefix split: option.split)

lemma normalize_row_16:
  "length fields \<noteq> 19 \<Longrightarrow>
   normalize_row fields ! 16 =
     (if 2 \<le> length (tail_idx fields)
      then fields ! (tail_idx fields ! (length (tail_idx fields) - 1)) else [])"
  by (auto simp add: normalize_row_def Let_def length_EXPECTED_HEADER length_copy_prefix
      nth_copy_prefix split: option.split)

text \<open>
  C3, as amended. The specification's sentence fails on a row of 19 fields, which is
  returned as it is, whatever stands at index 13. For a row whose length is not 19 that contains a
  token matching the mandate-like pattern, the first such token (position \<open>k\<close>, with no
  match before it) is at index 13 of the result.
\<close>

theorem normalize_row_mandate_slot:
  assumes len: "length fields \<noteq> 19"
    and ex: "v \<in> set fields" "MANDATE_LIKE_RE v"
  shows "\<exists>k < length fields. MANDATE_LIKE_RE (fields ! k)
           \<and> list_all (\<lambda>u. \<not> MANDATE_LIKE_RE u) (take k fields)
           \<and> normalize_row fields ! 13 = fields ! k"
proof -
  from ex have "find MANDATE_LIKE_RE fields \<noteq> None"
    by (auto simp: find_None_iff)
  then obtain k where k: "id_date_idx fields = Some k"
    using id_date_idx_None [of fields] by (cases "id_date_idx fields") auto
  then have kl: "k < length fields" and f: "find MANDATE_LIKE_RE fields = Some (fields ! k)"
    using id_date_idx_Some by blast+
  from f obtain i where i: "i < length fields" "MANDATE_LIKE_RE (fields ! i)"
    "fields ! k = fields ! i" "\<forall>j<i. \<not> MANDATE_LIKE_RE (fields ! j)"
    by (auto simp: find_Some_iff)
  have "list_all (\<lambda>u. \<not> MANDATE_LIKE_RE u) (take i fields)"
    using i by (auto simp: list_all_length)
  moreover have "normalize_row fields ! 13 = fields ! i"
    using len k i by (simp add: normalize_row_13)
  ultimately show ?thesis using i by blast
qed

theorem normalize_row_mandate_slot_witness:
  "length [''A'', ''B'', ''C'', ''D'', ''E'', ''F'', ''G'', ''H'', ''I'', ''X'', ''99999999-2024-01-01'', ''Y''] \<noteq> 19
   \<and> ''99999999-2024-01-01'' \<in> set [''A'', ''B'', ''C'', ''D'', ''E'', ''F'', ''G'', ''H'', ''I'', ''X'', ''99999999-2024-01-01'', ''Y'']
   \<and> MANDATE_LIKE_RE ''99999999-2024-01-01''
   \<and> (\<exists>k < length [''A'', ''B'', ''C'', ''D'', ''E'', ''F'', ''G'', ''H'', ''I'', ''X'', ''99999999-2024-01-01'', ''Y'']. MANDATE_LIKE_RE ([''A'', ''B'', ''C'', ''D'', ''E'', ''F'', ''G'', ''H'', ''I'', ''X'', ''99999999-2024-01-01'', ''Y''] ! k)
           \<and> list_all (\<lambda>u. \<not> MANDATE_LIKE_RE u) (take k [''A'', ''B'', ''C'', ''D'', ''E'', ''F'', ''G'', ''H'', ''I'', ''X'', ''99999999-2024-01-01'', ''Y''])
           \<and> normalize_row [''A'', ''B'', ''C'', ''D'', ''E'', ''F'', ''G'', ''H'', ''I'', ''X'', ''99999999-2024-01-01'', ''Y''] ! 13 = [''A'', ''B'', ''C'', ''D'', ''E'', ''F'', ''G'', ''H'', ''I'', ''X'', ''99999999-2024-01-01'', ''Y''] ! k)"
proof -
  have h1: "length [''A'', ''B'', ''C'', ''D'', ''E'', ''F'', ''G'', ''H'', ''I'', ''X'', ''99999999-2024-01-01'', ''Y''] \<noteq> 19" by simp
  have h2: "''99999999-2024-01-01'' \<in> set [''A'', ''B'', ''C'', ''D'', ''E'', ''F'', ''G'', ''H'', ''I'', ''X'', ''99999999-2024-01-01'', ''Y'']" by simp
  have h3: "MANDATE_LIKE_RE ''99999999-2024-01-01''" by code_simp
  show ?thesis using h1 h2 h3 normalize_row_mandate_slot [OF h1 h2 h3] by blast
qed

text \<open>
  C3, the counterexample: a row of 19 fields whose first field is a mandate-like token
  and whose other fields are empty comes back unchanged, so index 13 is empty.
\<close>

theorem normalize_row_mandate_slot_counterexample:
  "length (''123456-2024-03-01'' # replicate 18 []) = 19
   \<and> MANDATE_LIKE_RE ''123456-2024-03-01''
   \<and> find MANDATE_LIKE_RE (''123456-2024-03-01'' # replicate 18 []) = Some ''123456-2024-03-01''
   \<and> normalize_row (''123456-2024-03-01'' # replicate 18 []) ! 13 = []"
  by code_simp

text \<open>
  C5. For a row whose length is not 19, let \<open>ne\<close> be its non-empty fields in their
  order (the values at the indices of \<open>tail\<close>). With at least two of them, slot 15 is the
  second-to-last and slot 16 the last; with exactly one, slot 15 is that value and slot
  16 is empty; with none, both slots are empty.
\<close>

theorem normalize_row_tail_salvage:
  assumes "length fields \<noteq> 19"
  shows "let ne = filter (\<lambda>v. v \<noteq> []) fields; n = length (tail_idx fields) in
           n = length ne \<and>
           (if 2 \<le> n then normalize_row fields ! 15 = ne ! (n - 2)
                          \<and> normalize_row fields ! 16 = ne ! (n - 1)
            else if n = 1 then normalize_row fields ! 15 = ne ! 0
                          \<and> normalize_row fields ! 16 = []
            else normalize_row fields ! 15 = [] \<and> normalize_row fields ! 16 = [])"
proof -
  define n where "n = length (tail_idx fields)"
  have n_ne: "n = length (filter (\<lambda>v. v \<noteq> []) fields)"
    by (simp add: n_def tail_idx_length)
  consider "n = 0" | "n = 1" | "2 \<le> n" by linarith
  then have "if 2 \<le> n
      then normalize_row fields ! 15 = filter (\<lambda>v. v \<noteq> []) fields ! (n - 2)
         \<and> normalize_row fields ! 16 = filter (\<lambda>v. v \<noteq> []) fields ! (n - 1)
      else if n = 1
      then normalize_row fields ! 15 = filter (\<lambda>v. v \<noteq> []) fields ! 0
         \<and> normalize_row fields ! 16 = []
      else normalize_row fields ! 15 = [] \<and> normalize_row fields ! 16 = []"
  proof cases
    case 1
    then show ?thesis
      using assms by (simp add: n_def normalize_row_15 normalize_row_16)
  next
    case 2
    then have "tail_idx fields \<noteq> []" by (auto simp: n_def)
    with 2 show ?thesis
      using assms tail_idx_nth [of 0 fields]
      by (simp add: n_def normalize_row_15 normalize_row_16)
  next
    case 3
    then have "tail_idx fields \<noteq> []" by (auto simp: n_def)
    with 3 show ?thesis
      using assms tail_idx_nth [of "n - 2" fields] tail_idx_nth [of "n - 1" fields]
      by (simp add: n_def normalize_row_15 normalize_row_16)
  qed
  with n_ne show ?thesis by (simp add: Let_def n_def)
qed

theorem normalize_row_tail_salvage_witness:
  "length [''A'', ''B'', ''C'', ''D'', ''E'', ''F'', ''G'', ''H'', ''I'', ''X'', ''99999999-2024-01-01'', ''Y''] \<noteq> 19
   \<and> normalize_row [''A'', ''B'', ''C'', ''D'', ''E'', ''F'', ''G'', ''H'', ''I'', ''X'', ''99999999-2024-01-01'', ''Y''] ! 15 = ''99999999-2024-01-01''
   \<and> normalize_row [''A'', ''B'', ''C'', ''D'', ''E'', ''F'', ''G'', ''H'', ''I'', ''X'', ''99999999-2024-01-01'', ''Y''] ! 16 = ''Y''
   \<and> normalize_row [[], ''only'', []] ! 15 = ''only''
   \<and> normalize_row [[], ''only'', []] ! 16 = []
   \<and> normalize_row [[], []] ! 15 = [] \<and> normalize_row [[], []] ! 16 = []"
proof -
  have h: "length [''A'', ''B'', ''C'', ''D'', ''E'', ''F'', ''G'', ''H'', ''I'', ''X'', ''99999999-2024-01-01'', ''Y''] \<noteq> 19" "length [[], ''only'', []] \<noteq> 19"
    "length [[] :: string, []] \<noteq> 19" by simp_all
  have t: "length (tail_idx [''A'', ''B'', ''C'', ''D'', ''E'', ''F'', ''G'', ''H'', ''I'', ''X'', ''99999999-2024-01-01'', ''Y'']) = 12" "length (tail_idx [[], ''only'', []]) = 1"
    "length (tail_idx [[] :: string, []]) = 0" by code_simp+
  show ?thesis
    using h normalize_row_tail_salvage [OF h(1)] normalize_row_tail_salvage [OF h(2)]
      normalize_row_tail_salvage [OF h(3)]
    by (simp add: Let_def t)
qed

text \<open>
  C10. For a row whose length is not 19, slots 0..8 of the result are the first
  \<open>min 9 (length fields)\<close> input values followed by empty strings, and slots 9, 10, 11,
  12, 14, 17 and 18 are empty: only slots 13, 15 and 16 take values from elsewhere.
\<close>

theorem normalize_row_frame:
  assumes "length fields \<noteq> 19"
  shows "(\<forall>j<9. normalize_row fields ! j = (if j < min 9 (length fields) then fields ! j else []))
         \<and> (\<forall>j \<in> {9, 10, 11, 12, 14, 17, 18}. normalize_row fields ! j = [])"
  using assms by (simp add: normalize_row_other)

theorem normalize_row_frame_witness:
  "length [''A'', ''B'', ''C''] \<noteq> 19
   \<and> map (\<lambda>j. normalize_row [''A'', ''B'', ''C''] ! j) [0 ..< 9]
       = [''A'', ''B'', ''C'', [], [], [], [], [], []]
   \<and> map (\<lambda>j. normalize_row [''A'', ''B'', ''C''] ! j) [9, 10, 11, 12, 14, 17, 18]
       = [[], [], [], [], [], [], []]"
proof -
  have h: "length [''A'', ''B'', ''C''] \<noteq> 19" by simp
  have u: "[0 ..< 9] = [0, 1, 2, 3, 4, 5, 6, 7, 8 :: nat]" by (simp add: upt_rec)
  show ?thesis using h normalize_row_frame [OF h] by (simp add: u)
qed

section \<open>Record extraction: tokens, the header line, skipped lines\<close>

lemma split_acc_word:
  "list_all (\<lambda>c. \<not> is_space c) w \<Longrightarrow> split_acc cur (w @ rest) = split_acc (cur @ w) rest"
  by (induction w arbitrary: cur) simp_all

lemma split_acc_skip: "split_acc [] s = split_acc [] (dropWhile is_space s)"
  by (induction s) simp_all

lemma split_acc_gap:
  assumes "spaces1 s = Some r" and "cur \<noteq> []"
  shows "split_acc cur s = cur # split_acc [] r"
proof (cases s)
  case Nil
  with assms show ?thesis by (simp add: spaces1_def)
next
  case (Cons c cs)
  with assms have sp: "is_space c" and r: "r = dropWhile is_space cs"
    by (auto simp: spaces1_def split: if_splits)
  from sp Cons assms(2) have "split_acc cur s = cur # split_acc [] cs" by simp
  with r show ?thesis using split_acc_skip [of cs] by simp
qed

lemma split_acc_at_end: "at_end r \<Longrightarrow> cur \<noteq> [] \<Longrightarrow> split_acc cur r = [cur]"
  by (auto simp: at_end_def is_space_def)

lemma lits_append: "lits p s = Some r \<Longrightarrow> s = p @ r"
  by (auto simp: lits_def startswith_def split: if_splits)
     (metis append_take_drop_id)

lemma header_split:
  assumes "header_regex s"
  shows "split s = [''Dateiname'', ''Name'', ''Kundennummer'', ''Fehler'']"
proof -
  from assms obtain r1 r2 r3 r4 r5 r6 r7 where
    l1: "lits ''Dateiname'' s = Some r1" and s1: "spaces1 r1 = Some r2" and
    l2: "lits ''Name'' r2 = Some r3" and s2: "spaces1 r3 = Some r4" and
    l3: "lits ''Kundennummer'' r4 = Some r5" and s3: "spaces1 r5 = Some r6" and
    l4: "lits ''Fehler'' r6 = Some r7" and e: "at_end r7"
    by (auto simp: header_regex_def split: option.splits)
  have w1: "list_all (\<lambda>c. \<not> is_space c) ''Dateiname''"
    and w2: "list_all (\<lambda>c. \<not> is_space c) ''Name''"
    and w3: "list_all (\<lambda>c. \<not> is_space c) ''Kundennummer''"
    and w4: "list_all (\<lambda>c. \<not> is_space c) ''Fehler''"
    by (simp_all add: is_space_def)
  have "split_acc [] r6 = [''Fehler'']"
    using lits_append [OF l4] split_acc_word [OF w4, of "[]" r7] split_acc_at_end [OF e]
    by simp
  moreover have "split_acc [] r4 = ''Kundennummer'' # split_acc [] r6"
    using lits_append [OF l3] split_acc_word [OF w3, of "[]" r5] split_acc_gap [OF s3]
    by simp
  moreover have "split_acc [] r2 = ''Name'' # split_acc [] r4"
    using lits_append [OF l2] split_acc_word [OF w2, of "[]" r3] split_acc_gap [OF s2]
    by simp
  moreover have "split_acc [] s = ''Dateiname'' # split_acc [] r2"
    using lits_append [OF l1] split_acc_word [OF w1, of "[]" r1] split_acc_gap [OF s1]
    by simp
  ultimately show ?thesis by (simp add: split_def)
qed

lemma header_skipped: "header_regex s \<Longrightarrow> parse_line s = Inr None"
  by (simp add: parse_line_def header_split all_digits_def is_digit_def)

lemma parse_loop_drop_line:
  "parse_line l = Inr None \<Longrightarrow> parse_loop (pre @ l # post) acc = parse_loop (pre @ post) acc"
  by (induction pre arbitrary: acc) (simp_all split: sum.splits option.splits)

lemma parse_records_from_lines_loop: "parse_records_from_lines lines = parse_loop lines []"
proof (cases lines)
  case Nil
  then show ?thesis by (simp add: parse_records_from_lines_def)
next
  case (Cons l ls)
  then show ?thesis
    by (simp add: parse_records_from_lines_def header_skipped)
qed

text \<open>
  C8. A line with fewer than 4 white-space separated tokens, and a line whose
  second-to-last token is not made of digits only, gives no record and no error
  (\<open>continue\<close>), and the function goes on with the other lines: its result is the one
  it has without that line, wherever the line stands.
\<close>

theorem skipped_lines:
  assumes "length (split line) < 4
           \<or> \<not> all_digits (split line ! (length (split line) - 2))"
  shows "parse_line line = Inr None
         \<and> parse_records_from_lines (pre @ line # post) = parse_records_from_lines (pre @ post)"
proof -
  from assms have "parse_line line = Inr None"
    by (auto simp: parse_line_def Let_def)
  then show ?thesis
    by (simp add: parse_records_from_lines_loop parse_loop_drop_line)
qed

theorem skipped_lines_witness:
  "length (split ''one two three'') < 4
   \<and> \<not> all_digits (split ''f.pdf Jane Doe 12a4 E1'' ! (length (split ''f.pdf Jane Doe 12a4 E1'') - 2))
   \<and> parse_line ''one two three'' = Inr None
   \<and> parse_line ''f.pdf Jane Doe 12a4 E1'' = Inr None
   \<and> parse_records_from_lines [''x15new.pdf Bob 77 E1'', ''one two three'', ''y.pdf Al 5 E2'']
       = parse_records_from_lines [''x15new.pdf Bob 77 E1'', ''y.pdf Al 5 E2'']
   \<and> parse_records_from_lines [''x15new.pdf Bob 77 E1'', ''f.pdf Jane Doe 12a4 E1'', ''y.pdf Al 5 E2'']
       = parse_records_from_lines [''x15new.pdf Bob 77 E1'', ''y.pdf Al 5 E2'']"
proof -
  have h1: "length (split ''one two three'') < 4" by code_simp
  have h2: "\<not> all_digits (split ''f.pdf Jane Doe 12a4 E1'' ! (length (split ''f.pdf Jane Doe 12a4 E1'') - 2))"
    by code_simp
  show ?thesis
    using h1 h2
      skipped_lines [OF disjI1 [OF h1], of "[''x15new.pdf Bob 77 E1'']" "[''y.pdf Al 5 E2'']"]
      skipped_lines [OF disjI2 [OF h2], of "[''x15new.pdf Bob 77 E1'']" "[''y.pdf Al 5 E2'']"]
    by simp
qed


section \<open>Record extraction: the date of the filename\<close>

lemma find_date_empty_iff:
  "find_date_yyyymmdd_in_filename s = [] \<longleftrightarrow> (\<forall>i. \<not> date_here (drop i s))"
proof (induction s)
  case Nil
  then show ?case by (simp add: date_here_def startswith_def)
next
  case (Cons c cs)
  show ?case
  proof (cases "date_here (c # cs)")
    case True
    then have "\<not> (\<forall>i. \<not> date_here (drop i (c # cs)))"
      by (auto intro: exI [of _ 0])
    with True show ?thesis by simp
  next
    case False
    have "(\<forall>i. \<not> date_here (drop i (c # cs))) \<longleftrightarrow> (\<forall>i. \<not> date_here (drop i cs))"
    proof
      assume a: "\<forall>i. \<not> date_here (drop i (c # cs))"
      show "\<forall>i. \<not> date_here (drop i cs)"
      proof
        fix i from a have "\<not> date_here (drop (Suc i) (c # cs))" by blast
        then show "\<not> date_here (drop i cs)" by simp
      qed
    next
      assume a: "\<forall>i. \<not> date_here (drop i cs)"
      show "\<forall>i. \<not> date_here (drop i (c # cs))"
      proof
        fix i show "\<not> date_here (drop i (c # cs))"
          using a False by (cases i) simp_all
      qed
    qed
    with False Cons show ?thesis by simp
  qed
qed

lemma date_here_shape:
  assumes "date_here s"
  shows "length (take 8 s) = 8 \<and> all_digits (take 8 s)"
proof -
  from assms have p: "take (length ''20'') s = ''20''"
    and q: "length (take 6 (drop 2 s)) = 6 \<and> all_digits (take 6 (drop 2 s))"
    by (auto simp: date_here_def startswith_def digits_exact_def split: if_splits)
  from p obtain r where s: "s = CHR ''2'' # CHR ''0'' # r"
    by (cases s; cases "tl s") auto
  with q have "length (take 6 r) = 6" and "all_digits (take 6 r)" by simp_all
  with s show ?thesis by (simp add: all_digits_def is_digit_def)
qed

lemma find_date_shape:
  "find_date_yyyymmdd_in_filename s = []
   \<or> (length (find_date_yyyymmdd_in_filename s) = 8 \<and> all_digits (find_date_yyyymmdd_in_filename s))"
proof (induction s)
  case Nil
  then show ?case by simp
next
  case (Cons c cs)
  show ?case
  proof (cases "date_here (c # cs)")
    case True
    then have "find_date_yyyymmdd_in_filename (c # cs) = take 8 (c # cs)"
      by (simp only: find_date_yyyymmdd_in_filename.simps if_True)
    with date_here_shape [OF True] show ?thesis by metis
  next
    case False
    with Cons show ?thesis by simp
  qed
qed

lemma first_of_month_modelled:
  "yyyymmdd_to_first_of_month (find_date_yyyymmdd_in_filename s) \<noteq> Inl Unmodelled"
  using find_date_shape [of s]
  by (auto simp: yyyymmdd_to_first_of_month_def dateparser_parse_def Let_def split: sum.splits)

lemma parse_line_modelled: "parse_line line \<noteq> Inl Unmodelled"
  using first_of_month_modelled
  by (auto simp: parse_line_def Let_def split: sum.splits)

lemma parse_loop_modelled: "parse_loop lines acc \<noteq> Inl Unmodelled"
  using parse_line_modelled
  by (induction lines arbitrary: acc) (auto split: sum.splits option.splits)

lemma parse_records_from_lines_modelled: "parse_records_from_lines lines \<noteq> Inl Unmodelled"
  by (simp add: parse_records_from_lines_def parse_loop_modelled)

lemma split_acc_nonempty: "t \<in> set (split_acc cur s) \<Longrightarrow> t \<noteq> []"
  by (induction s arbitrary: cur) (auto split: if_splits)

lemma split_nth_nonempty: "k < length (split s) \<Longrightarrow> split s ! k \<noteq> []"
  using split_acc_nonempty [of "split s ! k" "[]" s] by (simp add: split_def)

lemma parse_line_accepted:
  assumes "4 \<le> length (split line)"
    and "all_digits (split line ! (length (split line) - 2))"
    and "yyyymmdd_to_first_of_month (find_date_yyyymmdd_in_filename (split line ! 0)) = Inr date"
  shows "\<exists>r. parse_line line = Inr (Some r) \<and>
           map_of r ''TRANSACTION INFORMATION''
             = Some (if date \<noteq> [] then split line ! (length (split line) - 2) @ ''-'' @ date
                     else split line ! (length (split line) - 2))"
proof -
  from assms(1) have "split line ! (length (split line) - 2) \<noteq> []"
    by (intro split_nth_nonempty) simp
  with assms show ?thesis
    by (simp add: parse_line_def Let_def)
qed

lemma digit_char_roundtrip: "is_digit c \<Longrightarrow> char_of (48 + (of_char c - 48 :: nat)) = c"
  by (simp add: is_digit_def Let_def)

lemma digit_value_less: "is_digit c \<Longrightarrow> (of_char c - 48 :: nat) < 10"
  by (auto simp: is_digit_def Let_def)

lemma int_of_digits_snoc:
  "int_of_digits (s @ [c]) = 10 * int_of_digits s + (of_char c - 48)"
  by (simp add: int_of_digits_def)

lemma str_nat_digit: "d < 10 \<Longrightarrow> str_nat d = [char_of (48 + d)]"
  by (simp add: str_nat.simps)

lemma str_nat_step:
  "0 < a \<Longrightarrow> d < 10 \<Longrightarrow> str_nat (10 * a + d) = str_nat a @ [char_of (48 + d)]"
  by (subst str_nat.simps) simp

lemma char_of_48: "char_of (48 :: nat) = CHR ''0''"
  by code_simp

lemma str_nat_nonempty: "str_nat n \<noteq> []"
  by (subst str_nat.simps) simp

lemma fmt_0d_digits:
  "s \<noteq> [] \<Longrightarrow> all_digits s \<Longrightarrow> fmt_0d (length s) (int_of_digits s) = s"
proof (induction s rule: rev_induct)
  case Nil
  then show ?case by simp
next
  case (snoc c s)
  from snoc.prems have c: "is_digit c" and s: "all_digits s"
    by (simp_all add: all_digits_def)
  let ?d = "of_char c - 48 :: nat"
  have d: "?d < 10" using c by (rule digit_value_less)
  have cc: "char_of (48 + ?d) = c" using c by (rule digit_char_roundtrip)
  show ?case
  proof (cases "s = []")
    case True
    then show ?thesis
      using d cc by (simp add: fmt_0d_def int_of_digits_def str_nat_digit)
  next
    case False
    with snoc.IH s have ih: "fmt_0d (length s) (int_of_digits s) = s" by simp
    show ?thesis
    proof (cases "int_of_digits s = 0")
      case True
      with ih have "replicate (length s - length (str_nat 0)) CHR ''0'' @ str_nat 0 = s"
        by (simp add: fmt_0d_def)
      then have z: "replicate (length s - 1) CHR ''0'' @ ''0'' = s"
        by (simp add: str_nat_digit char_of_48)
      have "replicate (length s - 1) CHR ''0'' @ ''0'' = replicate (length s) CHR ''0''"
        using False by (cases s) (simp_all add: replicate_append_same)
      with z have "replicate (length s) CHR ''0'' = s" by simp
      then show ?thesis
        using True d cc by (simp add: fmt_0d_def int_of_digits_snoc str_nat_digit)
    next
      case False
      then have "str_nat (10 * int_of_digits s + ?d) = str_nat (int_of_digits s) @ [c]"
        using d cc by (simp add: str_nat_step)
      then show ?thesis
        using ih by (simp add: fmt_0d_def int_of_digits_snoc)
    qed
  qed
qed

lemma find_date_first:
  "find_date_yyyymmdd_in_filename s \<noteq> [] \<Longrightarrow>
   \<exists>i. date_here (drop i s) \<and> (\<forall>j<i. \<not> date_here (drop j s))
       \<and> find_date_yyyymmdd_in_filename s = take 8 (drop i s)"
proof (induction s)
  case Nil
  then show ?case by simp
next
  case (Cons c cs)
  show ?case
  proof (cases "date_here (c # cs)")
    case True
    then have "date_here (drop 0 (c # cs)) \<and> (\<forall>j<0. \<not> date_here (drop j (c # cs)))
        \<and> find_date_yyyymmdd_in_filename (c # cs) = take 8 (drop 0 (c # cs))"
      by (simp del: take_Cons_numeral)
    then show ?thesis by blast
  next
    case False
    with Cons.prems have "find_date_yyyymmdd_in_filename cs \<noteq> []" by simp
    then obtain i where i: "date_here (drop i cs)" "\<forall>j<i. \<not> date_here (drop j cs)"
      "find_date_yyyymmdd_in_filename cs = take 8 (drop i cs)"
      using Cons.IH by blast
    have "\<forall>j<Suc i. \<not> date_here (drop j (c # cs))"
    proof (intro allI impI)
      fix j assume "j < Suc i"
      then show "\<not> date_here (drop j (c # cs))"
        using False i(2) by (cases j) simp_all
    qed
    moreover have "date_here (drop (Suc i) (c # cs))" using i(1) by simp
    moreover have "find_date_yyyymmdd_in_filename (c # cs) = take 8 (drop (Suc i) (c # cs))"
      using False i(3) by simp
    ultimately show ?thesis by blast
  qed
qed

lemma all_digits_take: "all_digits s \<Longrightarrow> all_digits (take n s)"
  by (auto simp: all_digits_def list_all_iff dest: in_set_takeD)

lemma all_digits_drop: "all_digits s \<Longrightarrow> all_digits (drop n s)"
  by (auto simp: all_digits_def list_all_iff dest: in_set_dropD)

lemma first_of_month_digits:
  assumes "length y = 8" and "all_digits y" and "yyyymmdd_to_first_of_month y = Inr date"
  shows "date = take 4 y @ ''-'' @ take 2 (drop 4 y) @ ''-01''"
proof -
  have "length (take 4 y) = 4" using assms(1) by simp
  moreover from this have "take 4 y \<noteq> []" by auto
  moreover have "all_digits (take 4 y)" using assms(2) by (rule all_digits_take)
  ultimately have a: "fmt_0d 4 (int_of_digits (take 4 y)) = take 4 y"
    using fmt_0d_digits [of "take 4 y"] by simp
  have "length (take 2 (drop 4 y)) = 2" using assms(1) by simp
  moreover from this have "take 2 (drop 4 y) \<noteq> []" by auto
  moreover have "all_digits (take 2 (drop 4 y))"
    using assms(2) by (intro all_digits_take all_digits_drop)
  ultimately have b: "fmt_0d 2 (int_of_digits (take 2 (drop 4 y))) = take 2 (drop 4 y)"
    using fmt_0d_digits [of "take 2 (drop 4 y)"] by simp
  from assms(1) have "y \<noteq> []" by auto
  with assms show ?thesis
    by (auto simp: yyyymmdd_to_first_of_month_def dateparser_parse_def Let_def a b
        split: if_splits)
qed

lemma find_date_leftmost:
  "date_here (drop i s) \<Longrightarrow> (\<forall>j<i. \<not> date_here (drop j s)) \<Longrightarrow>
   find_date_yyyymmdd_in_filename s = take 8 (drop i s)"
proof (induction s arbitrary: i)
  case Nil
  then show ?case by (simp add: date_here_def startswith_def)
next
  case (Cons c cs)
  show ?case
  proof (cases i)
    case 0
    with Cons.prems show ?thesis by (simp del: take_Cons_numeral)
  next
    case (Suc k)
    with Cons.prems have n0: "\<not> date_here (c # cs)" by force
    have k: "date_here (drop k cs)" using Cons.prems(1) Suc by simp
    have "\<forall>j<k. \<not> date_here (drop j cs)"
    proof (intro allI impI)
      fix j assume "j < k"
      then have "\<not> date_here (drop (Suc j) (c # cs))" using Cons.prems(2) Suc by blast
      then show "\<not> date_here (drop j cs)" by simp
    qed
    with k have "find_date_yyyymmdd_in_filename cs = take 8 (drop k cs)" by (rule Cons.IH)
    with n0 Suc show ?thesis by simp
  qed
qed

lemma first_of_month_accepted:
  assumes "length y = 8" and "all_digits y" and "dateparser_parse y = Inr ymd"
  shows "yyyymmdd_to_first_of_month y = Inr (take 4 y @ ''-'' @ take 2 (drop 4 y) @ ''-01'')"
proof -
  from assms(1) have "y \<noteq> []" by auto
  with assms(3) obtain date where d: "yyyymmdd_to_first_of_month y = Inr date"
    by (cases ymd) (auto simp: yyyymmdd_to_first_of_month_def)
  with assms(1,2) show ?thesis using first_of_month_digits [of y date] by simp
qed

text \<open>
  C9. For an accepted line (at least 4 tokens, the second-to-last made of digits): if the
  filename token has no place where \<open>20\d{6}\<close> matches, the derived date is empty and
  TRANSACTION INFORMATION is the bare customer id. When a derived date exists (the
  first-of-month string is returned and is not empty), it is the first of the month of
  the leftmost match \<open>YYYYMMDD\<close> of the filename token, that is \<open>YYYY-MM-01\<close> with the
  year and month digits of the match, and TRANSACTION INFORMATION is the customer id, a
  dash and that date. The derived date exists whenever the date parser accepts the
  leftmost match.
\<close>

theorem transaction_information:
  assumes "parts = split line" and "4 \<le> length parts"
    and "customer_id = parts ! (length parts - 2)" and "all_digits customer_id"
    and "filename_token = parts ! 0"
    and "derived = yyyymmdd_to_first_of_month (find_date_yyyymmdd_in_filename filename_token)"
  shows "((\<forall>i. \<not> date_here (drop i filename_token)) \<longrightarrow>
            derived = Inr [] \<and>
            (\<exists>r. parse_line line = Inr (Some r) \<and> parse_records_from_lines [line] = Inr [r]
                 \<and> map_of r ''TRANSACTION INFORMATION'' = Some customer_id))
       \<and> (\<forall>date. derived = Inr date \<and> date \<noteq> [] \<longrightarrow>
            (\<exists>i. date_here (drop i filename_token)
                 \<and> (\<forall>j<i. \<not> date_here (drop j filename_token))
                 \<and> date = take 4 (drop i filename_token) @ ''-''
                            @ take 2 (drop 4 (drop i filename_token)) @ ''-01'')
            \<and> (\<exists>r. parse_line line = Inr (Some r) \<and> parse_records_from_lines [line] = Inr [r]
                 \<and> map_of r ''TRANSACTION INFORMATION'' = Some (customer_id @ ''-'' @ date)))
       \<and> (\<forall>i ymd. date_here (drop i filename_token)
                 \<and> (\<forall>j<i. \<not> date_here (drop j filename_token))
                 \<and> dateparser_parse (take 8 (drop i filename_token)) = Inr ymd \<longrightarrow>
            derived = Inr (take 4 (drop i filename_token) @ ''-''
                            @ take 2 (drop 4 (drop i filename_token)) @ ''-01''))"
proof (intro conjI impI allI)
  assume "\<forall>i. \<not> date_here (drop i filename_token)"
  then have e: "find_date_yyyymmdd_in_filename filename_token = []"
    by (simp add: find_date_empty_iff)
  then show "derived = Inr []"
    using assms(6) by (simp add: yyyymmdd_to_first_of_month_def)
  then show "\<exists>r. parse_line line = Inr (Some r) \<and> parse_records_from_lines [line] = Inr [r]
                 \<and> map_of r ''TRANSACTION INFORMATION'' = Some customer_id"
    using assms parse_line_accepted [of line "[]"]
    by (auto simp: parse_records_from_lines_loop)
next
  fix date
  assume h: "derived = Inr date \<and> date \<noteq> []"
  then show "\<exists>r. parse_line line = Inr (Some r) \<and> parse_records_from_lines [line] = Inr [r]
                 \<and> map_of r ''TRANSACTION INFORMATION'' = Some (customer_id @ ''-'' @ date)"
    using assms parse_line_accepted [of line date]
    by (auto simp: parse_records_from_lines_loop)
  let ?y = "find_date_yyyymmdd_in_filename filename_token"
  from h assms(6) have ne: "?y \<noteq> []"
    by (auto simp: yyyymmdd_to_first_of_month_def)
  then obtain i where i: "date_here (drop i filename_token)"
    "\<forall>j<i. \<not> date_here (drop j filename_token)" "?y = take 8 (drop i filename_token)"
    using find_date_first by blast
  from ne find_date_shape [of filename_token] have "length ?y = 8" "all_digits ?y" by auto
  with h assms(6) have "date = take 4 ?y @ ''-'' @ take 2 (drop 4 ?y) @ ''-01''"
    using first_of_month_digits [of ?y date] by simp
  then have "date = take 4 (drop i filename_token) @ ''-''
                   @ take 2 (drop 4 (drop i filename_token)) @ ''-01''"
    by (simp add: i(3) drop_take)
  with i(1,2) show "\<exists>i. date_here (drop i filename_token)
                 \<and> (\<forall>j<i. \<not> date_here (drop j filename_token))
                 \<and> date = take 4 (drop i filename_token) @ ''-''
                            @ take 2 (drop 4 (drop i filename_token)) @ ''-01''"
    by blast
next
  fix i ymd
  let ?y = "take 8 (drop i filename_token)"
  assume h: "date_here (drop i filename_token)
                 \<and> (\<forall>j<i. \<not> date_here (drop j filename_token))
                 \<and> dateparser_parse ?y = Inr ymd"
  then have f: "find_date_yyyymmdd_in_filename filename_token = ?y"
    by (intro find_date_leftmost) simp_all
  from h have "length ?y = 8 \<and> all_digits ?y" by (intro date_here_shape) simp
  with h have "yyyymmdd_to_first_of_month ?y = Inr (take 4 ?y @ ''-'' @ take 2 (drop 4 ?y) @ ''-01'')"
    by (intro first_of_month_accepted [of ?y ymd]) simp_all
  then show "derived = Inr (take 4 (drop i filename_token) @ ''-''
                            @ take 2 (drop 4 (drop i filename_token)) @ ''-01'')"
    using assms(6) f by (simp add: drop_take)
qed

theorem transaction_information_witness:
  "4 \<le> length (split ''report.pdf Jane Doe 123456 E1'')
   \<and> all_digits ''123456''
   \<and> (\<forall>i. \<not> date_here (drop i ''report.pdf''))
   \<and> (\<exists>r. parse_line ''report.pdf Jane Doe 123456 E1'' = Inr (Some r)
          \<and> parse_records_from_lines [''report.pdf Jane Doe 123456 E1''] = Inr [r]
          \<and> map_of r ''TRANSACTION INFORMATION'' = Some ''123456'')
   \<and> 4 \<le> length (split ''x_20240315.pdf Jane Doe 123456 E1'')
   \<and> date_here (drop 2 ''x_20240315.pdf'')
   \<and> dateparser_parse (take 8 (drop 2 ''x_20240315.pdf'')) = Inr (2024, 3, 15)
   \<and> yyyymmdd_to_first_of_month (find_date_yyyymmdd_in_filename ''x_20240315.pdf'')
       = Inr ''2024-03-01''
   \<and> (\<exists>r. parse_line ''x_20240315.pdf Jane Doe 123456 E1'' = Inr (Some r)
          \<and> parse_records_from_lines [''x_20240315.pdf Jane Doe 123456 E1''] = Inr [r]
          \<and> map_of r ''TRANSACTION INFORMATION'' = Some ''123456-2024-03-01'')"
proof -
  have a: "split ''report.pdf Jane Doe 123456 E1'' = [''report.pdf'', ''Jane'', ''Doe'', ''123456'', ''E1'']"
    by code_simp
  have b: "split ''x_20240315.pdf Jane Doe 123456 E1'' = [''x_20240315.pdf'', ''Jane'', ''Doe'', ''123456'', ''E1'']"
    by code_simp
  have d: "all_digits ''123456''" by code_simp
  have "find_date_yyyymmdd_in_filename ''report.pdf'' = []" by code_simp
  then have n: "\<forall>i. \<not> date_here (drop i ''report.pdf'')"
    by (rule iffD1 [OF find_date_empty_iff])
  have m: "date_here (drop 2 ''x_20240315.pdf'')" by code_simp
  have "list_all (\<lambda>j. \<not> date_here (drop j ''x_20240315.pdf'')) [0 ..< 2]" by code_simp
  then have l: "\<forall>j<2. \<not> date_here (drop j ''x_20240315.pdf'')"
    by (simp add: list_all_iff)
  have v: "dateparser_parse (take 8 (drop 2 ''x_20240315.pdf'')) = Inr (2024, 3, 15)"
    by code_simp
  have a4: "4 \<le> length (split ''report.pdf Jane Doe 123456 E1'')" by (simp add: a)
  have ad: "all_digits (split ''report.pdf Jane Doe 123456 E1'' ! (length (split ''report.pdf Jane Doe 123456 E1'') - 2))" using d by (simp add: a)
  have af: "split ''report.pdf Jane Doe 123456 E1'' ! 0 = ''report.pdf''" by (simp add: a)
  have ac: "split ''report.pdf Jane Doe 123456 E1'' ! (length (split ''report.pdf Jane Doe 123456 E1'') - 2) = ''123456''" by (simp add: a)
  note ta = transaction_information [OF refl a4 refl ad refl refl, unfolded af ac]
  have t1: "\<exists>r. parse_line ''report.pdf Jane Doe 123456 E1'' = Inr (Some r)
          \<and> parse_records_from_lines [''report.pdf Jane Doe 123456 E1''] = Inr [r]
          \<and> map_of r ''TRANSACTION INFORMATION'' = Some ''123456''"
    by (rule conjunct2 [OF ta [THEN conjunct1, THEN mp, OF n]])
  have b4: "4 \<le> length (split ''x_20240315.pdf Jane Doe 123456 E1'')" by (simp add: b)
  have bd: "all_digits (split ''x_20240315.pdf Jane Doe 123456 E1'' ! (length (split ''x_20240315.pdf Jane Doe 123456 E1'') - 2))" using d by (simp add: b)
  have bf: "split ''x_20240315.pdf Jane Doe 123456 E1'' ! 0 = ''x_20240315.pdf''" by (simp add: b)
  have bc: "split ''x_20240315.pdf Jane Doe 123456 E1'' ! (length (split ''x_20240315.pdf Jane Doe 123456 E1'') - 2) = ''123456''" by (simp add: b)
  note tb = transaction_information [OF refl b4 refl bd refl refl, unfolded bf bc]
  have e: "take 4 (drop 2 ''x_20240315.pdf'') @ ''-''
             @ take 2 (drop 4 (drop 2 ''x_20240315.pdf'')) @ ''-01'' = ''2024-03-01''"
    by simp
  have f: "yyyymmdd_to_first_of_month (find_date_yyyymmdd_in_filename ''x_20240315.pdf'')
       = Inr ''2024-03-01''"
    using tb [THEN conjunct2, THEN conjunct2, THEN spec, THEN spec, THEN mp,
        OF conjI [OF m conjI [OF l v]]]
    by (simp only: e)
  have g: "yyyymmdd_to_first_of_month (find_date_yyyymmdd_in_filename ''x_20240315.pdf'')
       = Inr ''2024-03-01'' \<and> ''2024-03-01'' \<noteq> []"
    by (intro conjI f) simp
  have e2: "''123456'' @ ''-'' @ ''2024-03-01'' = ''123456-2024-03-01''" by simp
  have t2: "\<exists>r. parse_line ''x_20240315.pdf Jane Doe 123456 E1'' = Inr (Some r)
          \<and> parse_records_from_lines [''x_20240315.pdf Jane Doe 123456 E1''] = Inr [r]
          \<and> map_of r ''TRANSACTION INFORMATION'' = Some ''123456-2024-03-01''"
    using conjunct2 [OF tb [THEN conjunct2, THEN conjunct1, THEN spec, THEN mp, OF g]]
    by (simp only: e2)
  show ?thesis
    by (intro conjI a4 d n t1 b4 m v f t2)
qed

text \<open>
  C6. The line of the example gives exactly one record, with CUSTOMER NAME
  \<open>Jane Doe\<close>, CUSTOMER ID \<open>123456\<close>, ERROR CODE \<open>KC2-BL001\<close>, ERROR REASON
  \<open>User in the Blacklist\<close>, AMOUNT \<open>54.90\<close> and TRANSACTION INFORMATION
  \<open>123456-2024-03-01\<close>.
\<close>

theorem parse_example_line:
  "parse_records_from_lines [''PPS_DB_VPLUS1new_20240301.pdf Jane Doe 123456 KC2-BL001''] =
     Inr [[(''STATUS'', ''REJECTED''),
           (''END TO END ID'', []),
           (''MERCHANT'', ''PPS Perfunctio Payment Services GmbH''),
           (''AMOUNT'', ''54.90''),
           (''DUE DATE'', []),
           (''CUSTOMER BIC'', []),
           (''CUSTOMER IBAN'', []),
           (''CUSTOMER NAME'', ''Jane Doe''),
           (''CUSTOMER ID'', ''123456''),
           (''ADDITIONAL INFO 1'', []),
           (''ADDITIONAL INFO 2'', []),
           (''IMPORTED DATE'', []),
           (''MANDATE REFERENCE'', []),
           (''TRANSACTION INFORMATION'', ''123456-2024-03-01''),
           (''TRANSACTION TYPE NAME'', []),
           (''ERROR CODE'', ''KC2-BL001''),
           (''ERROR REASON'', ''User in the Blacklist''),
           (''MERCHANT PRODUCT NAME'', []),
           (''HAS CHARGEBACK'', [])]]"
  by code_simp

theorem parse_example_line_witness:
  "\<exists>r. parse_records_from_lines [''PPS_DB_VPLUS1new_20240301.pdf Jane Doe 123456 KC2-BL001''] = Inr [r]
     \<and> map_of r ''CUSTOMER NAME'' = Some ''Jane Doe''
     \<and> map_of r ''CUSTOMER ID'' = Some ''123456''
     \<and> map_of r ''ERROR CODE'' = Some ''KC2-BL001''
     \<and> map_of r ''ERROR REASON'' = Some ''User in the Blacklist''
     \<and> map_of r ''AMOUNT'' = Some ''54.90''
     \<and> map_of r ''TRANSACTION INFORMATION'' = Some ''123456-2024-03-01''"
  using parse_example_line by simp

text \<open>
  C4. The specification says that \<open>parse_records_from_lines\<close> returns for every list of lines and
  never raises, a malformed filename token giving an empty date. The code does not: in
  the line below the filename token holds \<open>20241301\<close>, which \<open>20\d{6}\<close> matches and
  which is no calendar date (month 13), and \<open>yyyymmdd_to_first_of_month\<close> hands it to the
  date parser, whose exception leaves the function.
\<close>

theorem parse_records_from_lines_raises:
  "parse_records_from_lines [''PPS_DB_VPLUS1new_20241301.pdf Jane Doe 123456 KC2-BL001'']
     = Inl ParserError"
  by code_simp


section \<open>Record extraction: the amount of the filename\<close>

lemma forall_drop_Cons:
  "(\<forall>i. P (drop i (c # cs))) \<longleftrightarrow> P (c # cs) \<and> (\<forall>i. P (drop i cs))"
proof
  assume a: "\<forall>i. P (drop i (c # cs))"
  have "P (c # cs)" using a [rule_format, of 0] by simp
  moreover have "\<forall>i. P (drop i cs)"
  proof
    fix i show "P (drop i cs)" using a [rule_format, of "Suc i"] by simp
  qed
  ultimately show "P (c # cs) \<and> (\<forall>i. P (drop i cs))" ..
next
  assume a: "P (c # cs) \<and> (\<forall>i. P (drop i cs))"
  show "\<forall>i. P (drop i (c # cs))"
  proof
    fix i show "P (drop i (c # cs))" using a by (cases i) simp_all
  qed
qed

lemma two_new_here_Nil: "\<not> two_new_here []"
  by (simp add: two_new_here_def digits_exact_def)

lemma search_two_new_None_iff:
  "search_two_new s = None \<longleftrightarrow> (\<forall>i. \<not> two_new_here (drop i s))"
proof (induction s)
  case Nil
  then show ?case by (simp add: two_new_here_Nil)
next
  case (Cons c cs)
  show ?case
    using Cons forall_drop_Cons [of "\<lambda>t. \<not> two_new_here t" c cs]
    by (cases "two_new_here (c # cs)") simp_all
qed

lemma search_two_new_first:
  "two_new_here (drop i s) \<Longrightarrow> (\<forall>j<i. \<not> two_new_here (drop j s)) \<Longrightarrow>
   search_two_new s = Some (take 2 (drop i s))"
proof (induction s arbitrary: i)
  case Nil
  then show ?case by (simp add: two_new_here_Nil)
next
  case (Cons c cs)
  show ?case
  proof (cases i)
    case 0
    with Cons.prems show ?thesis by simp
  next
    case (Suc k)
    with Cons.prems have n0: "\<not> two_new_here (c # cs)" by force
    have k: "two_new_here (drop k cs)" using Cons.prems(1) Suc by simp
    have "\<forall>j<k. \<not> two_new_here (drop j cs)"
    proof (intro allI impI)
      fix j assume "j < k"
      then have "\<not> two_new_here (drop (Suc j) (c # cs))" using Cons.prems(2) Suc by blast
      then show "\<not> two_new_here (drop j cs)" by simp
    qed
    with k have "search_two_new cs = Some (take 2 (drop k cs))" by (rule Cons.IH)
    with n0 Suc show ?thesis by simp
  qed
qed

lemma startswith_nth: "startswith s p \<Longrightarrow> k < length p \<Longrightarrow> s ! k = p ! k"
  unfolding startswith_def by (metis nth_take)

lemma first_prefix_None_iff:
  "first_prefix tbl filename = None \<longleftrightarrow> (\<forall>(p, a) \<in> set tbl. \<not> startswith filename p)"
  by (induction tbl filename rule: first_prefix.induct) auto

lemma first_prefix_table:
  assumes "(prefix, amount) \<in> set PRODUCT_AMOUNT_BY_PREFIX" and "startswith filename prefix"
  shows "first_prefix PRODUCT_AMOUNT_BY_PREFIX filename = Some amount"
proof -
  have d: "startswith filename ''PPS_DB_VPLUS1new'' \<Longrightarrow> filename ! 12 = CHR ''1''"
    "startswith filename ''PPS_DB_VPLUS2new'' \<Longrightarrow> filename ! 12 = CHR ''2''"
    "startswith filename ''PPS_DB_VPLUS3'' \<Longrightarrow> filename ! 12 = CHR ''3''"
    using startswith_nth [of filename _ 12] by fastforce+
  from assms consider
      "prefix = ''PPS_DB_VPLUS1new''" "amount = ''54.90''"
    | "prefix = ''PPS_DB_VPLUS2new''" "amount = ''39.90''"
    | "prefix = ''PPS_DB_VPLUS3''" "amount = ''39.90''"
    by (auto simp: PRODUCT_AMOUNT_BY_PREFIX_def)
  then show ?thesis
  proof cases
    case 1
    with assms(2) show ?thesis by (simp add: PRODUCT_AMOUNT_BY_PREFIX_def)
  next
    case 2
    with assms(2) d(1) d(2) have "\<not> startswith filename ''PPS_DB_VPLUS1new''" by fastforce
    with 2 assms(2) show ?thesis by (simp add: PRODUCT_AMOUNT_BY_PREFIX_def)
  next
    case 3
    with assms(2) d have "\<not> startswith filename ''PPS_DB_VPLUS1new''"
      and "\<not> startswith filename ''PPS_DB_VPLUS2new''" by fastforce+
    with 3 assms(2) show ?thesis by (simp add: PRODUCT_AMOUNT_BY_PREFIX_def)
  qed
qed

text \<open>
  C7, as amended. (a) A filename that starts with a prefix of the prefix table gets that
  prefix's amount, whatever two-digit match it has. (b) Otherwise, if the leftmost place
  where two digits stand immediately before \<open>new\<close> (position \<open>i\<close>, no such place before
  it) has digits that are a key of the two-digit table, the result is that key's amount.
  (c) Otherwise (no such place, or the digits of the leftmost one are no key) the result
  is the empty string.
\<close>

theorem detect_amount_priority:
  "((prefix, amount) \<in> set PRODUCT_AMOUNT_BY_PREFIX \<and> startswith filename prefix
      \<longrightarrow> detect_amount_from_filename filename = amount)
   \<and> ((\<forall>(p, a) \<in> set PRODUCT_AMOUNT_BY_PREFIX. \<not> startswith filename p)
        \<and> two_new_here (drop i filename) \<and> (\<forall>j<i. \<not> two_new_here (drop j filename))
        \<and> map_of PRODUCT_AMOUNT_BY_TWO_DIGIT (take 2 (drop i filename)) = Some amount2
      \<longrightarrow> detect_amount_from_filename filename = amount2)
   \<and> ((\<forall>(p, a) \<in> set PRODUCT_AMOUNT_BY_PREFIX. \<not> startswith filename p)
        \<and> ((\<forall>k. \<not> two_new_here (drop k filename))
            \<or> (two_new_here (drop i filename) \<and> (\<forall>j<i. \<not> two_new_here (drop j filename))
                \<and> map_of PRODUCT_AMOUNT_BY_TWO_DIGIT (take 2 (drop i filename)) = None))
      \<longrightarrow> detect_amount_from_filename filename = [])"
proof (intro conjI impI)
  assume "(prefix, amount) \<in> set PRODUCT_AMOUNT_BY_PREFIX \<and> startswith filename prefix"
  then have "first_prefix PRODUCT_AMOUNT_BY_PREFIX filename = Some amount"
    using first_prefix_table [of prefix amount filename] by blast
  then show "detect_amount_from_filename filename = amount"
    by (simp add: detect_amount_from_filename_def)
next
  assume a: "(\<forall>(p, a) \<in> set PRODUCT_AMOUNT_BY_PREFIX. \<not> startswith filename p)
        \<and> two_new_here (drop i filename) \<and> (\<forall>j<i. \<not> two_new_here (drop j filename))
        \<and> map_of PRODUCT_AMOUNT_BY_TWO_DIGIT (take 2 (drop i filename)) = Some amount2"
  then have "first_prefix PRODUCT_AMOUNT_BY_PREFIX filename = None"
    by (simp add: first_prefix_None_iff)
  moreover from a have "search_two_new filename = Some (take 2 (drop i filename))"
    by (intro search_two_new_first) simp_all
  ultimately show "detect_amount_from_filename filename = amount2"
    using a by (simp add: detect_amount_from_filename_def)
next
  assume a: "(\<forall>(p, a) \<in> set PRODUCT_AMOUNT_BY_PREFIX. \<not> startswith filename p)
        \<and> ((\<forall>k. \<not> two_new_here (drop k filename))
            \<or> (two_new_here (drop i filename) \<and> (\<forall>j<i. \<not> two_new_here (drop j filename))
                \<and> map_of PRODUCT_AMOUNT_BY_TWO_DIGIT (take 2 (drop i filename)) = None))"
  then have n: "first_prefix PRODUCT_AMOUNT_BY_PREFIX filename = None"
    by (simp add: first_prefix_None_iff)
  from a have "(\<forall>k. \<not> two_new_here (drop k filename))
            \<or> (two_new_here (drop i filename) \<and> (\<forall>j<i. \<not> two_new_here (drop j filename))
                \<and> map_of PRODUCT_AMOUNT_BY_TWO_DIGIT (take 2 (drop i filename)) = None)"
    by (rule conjunct2)
  then show "detect_amount_from_filename filename = []"
  proof (elim disjE conjE)
    assume "\<forall>k. \<not> two_new_here (drop k filename)"
    then have "search_two_new filename = None" by (simp add: search_two_new_None_iff)
    with n show ?thesis by (simp add: detect_amount_from_filename_def)
  next
    assume h: "two_new_here (drop i filename)" "\<forall>j<i. \<not> two_new_here (drop j filename)"
      and m: "map_of PRODUCT_AMOUNT_BY_TWO_DIGIT (take 2 (drop i filename)) = None"
    from h have "search_two_new filename = Some (take 2 (drop i filename))"
      by (rule search_two_new_first)
    with n m show ?thesis by (simp add: detect_amount_from_filename_def)
  qed
qed


theorem detect_amount_priority_witness:
  "startswith ''PPS_DB_VPLUS2new_15new.pdf'' ''PPS_DB_VPLUS2new''
   \<and> detect_amount_from_filename ''PPS_DB_VPLUS2new_15new.pdf'' = ''39.90''
   \<and> two_new_here (drop 7 ''report_25new.pdf'')
   \<and> detect_amount_from_filename ''report_25new.pdf'' = ''54.90''
   \<and> (\<forall>k. \<not> two_new_here (drop k ''report.pdf''))
   \<and> detect_amount_from_filename ''report.pdf'' = []
   \<and> two_new_here (drop 0 ''99new15new'')
   \<and> detect_amount_from_filename ''99new15new'' = []"
proof -
  have pa: "(''PPS_DB_VPLUS2new'', ''39.90'') \<in> set PRODUCT_AMOUNT_BY_PREFIX
            \<and> startswith ''PPS_DB_VPLUS2new_15new.pdf'' ''PPS_DB_VPLUS2new''"
    by code_simp
  have np: "\<forall>(p, a) \<in> set PRODUCT_AMOUNT_BY_PREFIX. \<not> startswith ''report_25new.pdf'' p"
    "\<forall>(p, a) \<in> set PRODUCT_AMOUNT_BY_PREFIX. \<not> startswith ''report.pdf'' p"
    "\<forall>(p, a) \<in> set PRODUCT_AMOUNT_BY_PREFIX. \<not> startswith ''99new15new'' p"
    by (simp_all add: PRODUCT_AMOUNT_BY_PREFIX_def startswith_def)
  have b1: "two_new_here (drop 7 ''report_25new.pdf'')" by code_simp
  have "list_all (\<lambda>j. \<not> two_new_here (drop j ''report_25new.pdf'')) [0 ..< 7]" by code_simp
  then have b2: "\<forall>j<7. \<not> two_new_here (drop j ''report_25new.pdf'')"
    by (simp add: list_all_iff)
  have b3: "map_of PRODUCT_AMOUNT_BY_TWO_DIGIT (take 2 (drop 7 ''report_25new.pdf'')) = Some ''54.90''"
    by code_simp
  have "search_two_new ''report.pdf'' = None" by code_simp
  then have c1: "\<forall>k. \<not> two_new_here (drop k ''report.pdf'')"
    by (rule iffD1 [OF search_two_new_None_iff])
  have c2: "two_new_here (drop 0 ''99new15new'')" by code_simp
  have c3: "\<forall>j<0::nat. \<not> two_new_here (drop j ''99new15new'')" by simp
  have c4: "map_of PRODUCT_AMOUNT_BY_TWO_DIGIT (take 2 (drop 0 ''99new15new'')) = None"
    by code_simp
  have r1: "detect_amount_from_filename ''PPS_DB_VPLUS2new_15new.pdf'' = ''39.90''"
    using detect_amount_priority [of "''PPS_DB_VPLUS2new''" "''39.90''" "''PPS_DB_VPLUS2new_15new.pdf''"] pa
    by blast
  have r2: "detect_amount_from_filename ''report_25new.pdf'' = ''54.90''"
    using detect_amount_priority [of _ _ "''report_25new.pdf''" 7 "''54.90''"] np(1) b1 b2 b3
    by blast
  have r3: "detect_amount_from_filename ''report.pdf'' = []"
    using detect_amount_priority [of _ _ "''report.pdf''"] np(2) c1 by blast
  have r4: "detect_amount_from_filename ''99new15new'' = []"
    using detect_amount_priority [of _ _ "''99new15new''" 0] np(3) c2 c3 c4 by blast
  show ?thesis using pa b1 c1 c2 r1 r2 r3 r4 by blast
qed

text \<open>
  C7, the counterexample. In \<open>99new15new\<close> no prefix of the table matches, the two
  digits \<open>15\<close> stand immediately before \<open>new\<close> (position 5) and are a key of the
  two-digit table with amount \<open>54.90\<close>, and the result is the empty string: the search
  stops at its leftmost match, \<open>99new\<close>, whose digits are no key.
\<close>

theorem detect_amount_counterexample:
  "first_prefix PRODUCT_AMOUNT_BY_PREFIX ''99new15new'' = None
   \<and> two_new_here (drop 5 ''99new15new'')
   \<and> map_of PRODUCT_AMOUNT_BY_TWO_DIGIT (take 2 (drop 5 ''99new15new'')) = Some ''54.90''
   \<and> detect_amount_from_filename ''99new15new'' = []"
  by code_simp

end
